theory Spec2Isabelle
  imports Main "HOL-Library.Sublist" "HOL-Library.Finite_Map"
begin

section \<open>The ClickHouse connector: query validation, execution and result mapping\<close>

text \<open>
  The development embeds two Go files of the connector: the client
  (\<^verbatim>\<open>internal/clickhouse/client.go\<close>: \<^verbatim>\<open>ValidateQuery\<close>, \<^verbatim>\<open>ExecuteQuery\<close>) and the gRPC handler
  (\<^verbatim>\<open>GetRetailers\<close>, \<^verbatim>\<open>convertToRetailers\<close>). A Go \<^verbatim>\<open>string\<close> is a sequence of bytes and is
  modelled as a \<^typ>\<open>string\<close>; a Go \<^verbatim>\<open>error\<close> is modelled by the text its \<^verbatim>\<open>Error()\<close> method
  returns; \<^verbatim>\<open>int\<close>, \<^verbatim>\<open>int32\<close> and \<^verbatim>\<open>int64\<close> values are only compared and printed, never
  computed with, and are modelled as \<^typ>\<open>int\<close>. Calls of \<^verbatim>\<open>log.Printf\<close> are left out.
\<close>

type_synonym error = string

subsection \<open>The functions of Go's \<^verbatim>\<open>strings\<close> and \<^verbatim>\<open>fmt\<close> packages that the code calls\<close>

text \<open>
  \<^verbatim>\<open>strings.ToLower\<close> and \<^verbatim>\<open>strings.TrimSpace\<close> belong to Go's standard library, not to this
  repository: they read a text as UTF-8 runes and follow the tables of Unicode for the cases
  of the letters and for white space. The model takes the two functions as given, in a
  \<open>strings_pkg\<close>, and every property below is proved for whatever two functions it holds.
  \<^verbatim>\<open>strings.HasPrefix\<close> and \<^verbatim>\<open>strings.Contains\<close> compare bytes and are modelled in full.
\<close>

record strings_pkg =
  ToLower :: "string \<Rightarrow> string"
  TrimSpace :: "string \<Rightarrow> string"

definition HasPrefix :: "string \<Rightarrow> string \<Rightarrow> bool" where
  "HasPrefix s pre \<longleftrightarrow> length pre \<le> length s \<and> take (length pre) s = pre"

fun Contains :: "string \<Rightarrow> string \<Rightarrow> bool" where
  "Contains [] substr = (substr = [])"
| "Contains (c # s) substr = (HasPrefix (c # s) substr \<or> Contains s substr)"

text \<open>\<^verbatim>\<open>fmt.Sprintf("%d", i)\<close>: the decimal digits of \<open>i\<close>, after a minus sign when \<open>i\<close> is negative.\<close>

definition digit_char :: "nat \<Rightarrow> char" where
  "digit_char d = ''0123456789'' ! d"

function decimal :: "nat \<Rightarrow> string" where
  "decimal n = (if n < 10 then [digit_char n] else decimal (n div 10) @ [digit_char (n mod 10)])"
  by pat_completeness auto
termination
  by (relation "measure (\<lambda>n. n)") auto

declare decimal.simps [simp del]

definition Sprintf_d :: "int \<Rightarrow> string" where
  "Sprintf_d i = (if i < 0 then CHR ''-'' # decimal (nat (- i)) else decimal (nat i))"

subsection \<open>\<^verbatim>\<open>ValidateQuery\<close>\<close>

text \<open>The blacklist, in the order of the source: ten words between spaces, then seven phrases.\<close>

definition dangerousKeywords :: "string list" where
  "dangerousKeywords =
     ['' drop '', '' delete '', '' insert '', '' update '', '' alter '',
      '' truncate '', '' grant '', '' revoke '', '' exec '', '' execute '',
      ''drop table'', ''drop database'', ''create table'', ''create database'',
      ''alter table'', ''truncate table'', ''insert into'']"

text \<open>The loop over the blacklist: the first keyword found in the padded text ends it.\<close>

fun check_keywords :: "strings_pkg \<Rightarrow> string \<Rightarrow> string list \<Rightarrow> error + unit" where
  "check_keywords lib queryWithSpaces [] = Inr ()"
| "check_keywords lib queryWithSpaces (keyword # keywords) =
     (if Contains queryWithSpaces keyword
      then Inl (''query contains forbidden keyword: '' @ TrimSpace lib keyword)
      else check_keywords lib queryWithSpaces keywords)"

definition ValidateQuery :: "strings_pkg \<Rightarrow> string \<Rightarrow> error + unit" where
  "ValidateQuery lib query =
     (let queryLower = ToLower lib (TrimSpace lib query) in
      if \<not> HasPrefix queryLower ''select'' then Inl ''only SELECT queries are allowed''
      else check_keywords lib ('' '' @ queryLower @ '' '') dangerousKeywords)"

subsection \<open>Values, rows and the backend\<close>

text \<open>
  A \<^verbatim>\<open>time.Time\<close> is modelled by the two readings \<^verbatim>\<open>timestamppb.New\<close> takes from it. A value
  of type \<^verbatim>\<open>interface{}\<close> that the driver hands back is \<^verbatim>\<open>nil\<close>, a \<^verbatim>\<open>string\<close>, a
  \<^verbatim>\<open>time.Time\<close>, an \<^verbatim>\<open>int64\<close>, or a value of another dynamic type, named by that type.
\<close>

record Time =
  Unix :: int
  Nanosecond :: int

datatype val = NilV | StringV string | TimeV Time | Int64V int | OtherV string

text \<open>
  A Go map is a finite map. It has no order of its own: a \<^verbatim>\<open>range\<close> loop visits every key
  once, in an order the language leaves open. \<open>range_order m ks\<close> says that \<open>ks\<close> is one of
  the sequences in which such a loop may visit the keys of \<open>m\<close>.
\<close>

type_synonym row = "(string, val) fmap"

definition range_order :: "('k, 'v) fmap \<Rightarrow> 'k list \<Rightarrow> bool" where
  "range_order m ks \<longleftrightarrow> distinct ks \<and> fset_of_list ks = fmdom m"

record SQLResult =
  Columns :: "string list"
  Rows :: "row list"

text \<open>
  What \<^verbatim>\<open>db.QueryContext\<close> returns on success, a \<^verbatim>\<open>*sql.Rows\<close>: the answer of \<^verbatim>\<open>Columns()\<close>,
  the outcome of \<^verbatim>\<open>Scan\<close> for each row that \<^verbatim>\<open>Next()\<close> advances to, and the answer of
  \<^verbatim>\<open>Err()\<close> once \<^verbatim>\<open>Next()\<close> has returned false.
\<close>

record sql_Rows =
  rows_Columns :: "error + string list"
  rows_Scan :: "(error + val list) list"
  rows_Err :: "error option"

text \<open>
  The world a request runs in: the two functions of the \<^verbatim>\<open>strings\<close> package, how the backend
  answers a query text with its arguments, the calls made so far (the executor entered, a
  query sent to the backend), the milliseconds \<^verbatim>\<open>time.Since(start)\<close> reads, and the order the
  runtime picks for a \<^verbatim>\<open>range\<close> over a row.
\<close>

datatype event =
  ExecuteQuery_called string "(string, string) fmap" int int
| QueryContext_called string "string list"

record world =
  strings_lib :: strings_pkg
  QueryContext :: "string \<Rightarrow> string list \<Rightarrow> error + sql_Rows"
  trace :: "event list"
  since_ms :: int
  range_choice :: "row \<Rightarrow> string list"

subsection \<open>\<^verbatim>\<open>ExecuteQuery\<close>\<close>

text \<open>
  The parameter loop \<^verbatim>\<open>for i := 1; i <= len(parameters); i++\<close>, with \<open>n\<close> the number of keys of
  the map and \<open>args\<close> the arguments appended so far.
\<close>

function bind_loop :: "(string, string) fmap \<Rightarrow> nat \<Rightarrow> nat \<Rightarrow> string list \<Rightarrow> string list" where
  "bind_loop parameters i n args =
     (if i \<le> n
      then bind_loop parameters (Suc i) n
             (case fmlookup parameters (Sprintf_d (int i)) of
                Some paramValue \<Rightarrow> args @ [paramValue]
              | None \<Rightarrow> args)
      else args)"
  by pat_completeness auto
termination
  by (relation "measure (\<lambda>(parameters, i, n, args). Suc n - i)") auto

declare bind_loop.simps [simp del]

definition bind_parameters :: "(string, string) fmap \<Rightarrow> string list" where
  "bind_parameters parameters = bind_loop parameters 1 (fcard (fmdom parameters)) []"

definition paginate :: "string \<Rightarrow> int \<Rightarrow> int \<Rightarrow> string" where
  "paginate sqlQuery limit offset =
     sqlQuery @ (if limit > 0 then '' LIMIT '' @ Sprintf_d limit else [])
              @ (if offset > 0 then '' OFFSET '' @ Sprintf_d offset else [])"

text \<open>
  \<^verbatim>\<open>rows.Scan\<close> into as many destinations as there are column names: it fails when the
  driver fails, and when the row does not have that many values.
\<close>

definition Scan :: "nat \<Rightarrow> error + val list \<Rightarrow> error + val list" where
  "Scan n r =
     (case r of
        Inl err \<Rightarrow> Inl err
      | Inr columnValues \<Rightarrow>
          if length columnValues = n then Inr columnValues
          else Inl (''sql: expected '' @ Sprintf_d (int (length columnValues))
                    @ '' destination arguments in Scan, not '' @ Sprintf_d (int n)))"

definition make_rowMap :: "string list \<Rightarrow> val list \<Rightarrow> row" where
  "make_rowMap columnNames columnValues =
     fold (\<lambda>(columnName, v) rowMap. fmupd columnName v rowMap)
          (zip columnNames columnValues) fmempty"

fun scan_rows :: "string list \<Rightarrow> (error + val list) list \<Rightarrow> row list \<Rightarrow> error + row list" where
  "scan_rows columnNames [] resultRows = Inr resultRows"
| "scan_rows columnNames (r # rs) resultRows =
     (case Scan (length columnNames) r of
        Inl err \<Rightarrow> Inl (''failed to scan row: '' @ err)
      | Inr columnValues \<Rightarrow>
          scan_rows columnNames rs (resultRows @ [make_rowMap columnNames columnValues]))"

definition ExecuteQuery ::
  "world \<Rightarrow> string \<Rightarrow> (string, string) fmap \<Rightarrow> int \<Rightarrow> int \<Rightarrow> (error + SQLResult \<times> int) \<times> world" where
  "ExecuteQuery w0 sqlQuery parameters limit offset =
     (let w = w0\<lparr>trace := trace w0 @ [ExecuteQuery_called sqlQuery parameters limit offset]\<rparr> in
      if sqlQuery = [] then (Inl ''sql_query cannot be empty'', w)
      else case ValidateQuery (strings_lib w) sqlQuery of
        Inl err \<Rightarrow> (Inl (''invalid query: '' @ err), w)
      | Inr _ \<Rightarrow>
         (let args = bind_parameters parameters;
              finalQuery = paginate sqlQuery limit offset;
              w' = w\<lparr>trace := trace w @ [QueryContext_called finalQuery args]\<rparr>
          in case QueryContext w finalQuery args of
               Inl err \<Rightarrow> (Inl (''failed to execute query: '' @ err), w')
             | Inr rows \<Rightarrow>
                (case rows_Columns rows of
                   Inl err \<Rightarrow> (Inl (''failed to get column names: '' @ err), w')
                 | Inr columnNames \<Rightarrow>
                    (case scan_rows columnNames (rows_Scan rows) [] of
                       Inl err \<Rightarrow> (Inl err, w')
                     | Inr resultRows \<Rightarrow>
                        (case rows_Err rows of
                           Some err \<Rightarrow> (Inl (''error iterating rows: '' @ err), w')
                         | None \<Rightarrow>
                            (Inr (\<lparr>Columns = columnNames, Rows = resultRows\<rparr>, since_ms w),
                             w'))))))"

subsection \<open>The handler: \<^verbatim>\<open>convertToRetailers\<close> and \<^verbatim>\<open>GetRetailers\<close>\<close>

record Timestamp =
  Seconds :: int
  Nanos :: int

definition timestamppb_New :: "Time \<Rightarrow> Timestamp" where
  "timestamppb_New t = \<lparr>Seconds = Unix t, Nanos = Nanosecond t\<rparr>"

record Retailer =
  Id_field :: "string option"
  Name :: "string option"
  CreatedAt :: "Timestamp option"

text \<open>The body of the inner loop of \<^verbatim>\<open>convertToRetailers\<close>, for one column of a row.\<close>

definition mapColumn :: "strings_pkg \<Rightarrow> string \<Rightarrow> val \<Rightarrow> Retailer \<Rightarrow> Retailer" where
  "mapColumn lib columnName v retailer =
     (if v = NilV then retailer
      else let columnNameLower = ToLower lib columnName in
        if columnNameLower = ''id'' then
          (case v of StringV strValue \<Rightarrow> retailer\<lparr>Id_field := Some strValue\<rparr> | _ \<Rightarrow> retailer)
        else if columnNameLower = ''name'' then
          (case v of StringV strValue \<Rightarrow> retailer\<lparr>Name := Some strValue\<rparr> | _ \<Rightarrow> retailer)
        else if columnNameLower = ''created_at'' then
          (case v of TimeV timeValue \<Rightarrow> retailer\<lparr>CreatedAt := Some (timestamppb_New timeValue)\<rparr>
                   | _ \<Rightarrow> retailer)
        else retailer)"

text \<open>
  One turn of the inner loop, at the key \<open>columnName\<close> of the row, and the whole loop with
  the keys visited in the order \<open>ks\<close>.
\<close>

definition visit :: "strings_pkg \<Rightarrow> row \<Rightarrow> string \<Rightarrow> Retailer \<Rightarrow> Retailer" where
  "visit lib r columnName retailer =
     (case fmlookup r columnName of
        Some v \<Rightarrow> mapColumn lib columnName v retailer
      | None \<Rightarrow> retailer)"

definition convertRow :: "strings_pkg \<Rightarrow> row \<Rightarrow> string list \<Rightarrow> Retailer" where
  "convertRow lib r ks = fold (visit lib r) ks \<lparr>Id_field = None, Name = None, CreatedAt = None\<rparr>"

definition convertToRetailers ::
  "strings_pkg \<Rightarrow> (row \<Rightarrow> string list) \<Rightarrow> SQLResult \<Rightarrow> Retailer list" where
  "convertToRetailers lib ord result = map (\<lambda>r. convertRow lib r (ord r)) (Rows result)"

datatype Code = InvalidArgument | Internal

datatype Status = Status Code string

record GetRetailersRequest =
  SqlQuery :: string
  Parameters :: "(string, string) fmap"
  Limit :: int
  Offset :: int

record GetRetailersResponse =
  Retailers :: "Retailer list"
  Count :: int
  ExecutionTimeMs :: int
  Error :: string

text \<open>
  \<^verbatim>\<open>GetRetailers\<close> returns a response or a status (the transport-level failure). A \<^verbatim>\<open>nil\<close>
  slice and an empty one are both the empty list, so the replacement of a \<^verbatim>\<open>nil\<close> result
  of the conversion by an empty slice does not show.
\<close>

definition GetRetailers :: "world \<Rightarrow> GetRetailersRequest \<Rightarrow> (Status + GetRetailersResponse) \<times> world" where
  "GetRetailers w req =
     (if SqlQuery req = [] then (Inl (Status InvalidArgument ''sql_query cannot be empty''), w)
      else if Limit req < 0 then (Inl (Status InvalidArgument ''limit cannot be negative''), w)
      else if Offset req < 0 then (Inl (Status InvalidArgument ''offset cannot be negative''), w)
      else
        (let req' = (if Limit req > 10000 then req\<lparr>Limit := 10000\<rparr> else req) in
         case ExecuteQuery w (SqlQuery req') (Parameters req') (Limit req') (Offset req') of
           (Inl err, w') \<Rightarrow>
             (Inr \<lparr>Retailers = [], Count = 0, ExecutionTimeMs = 0, Error = err\<rparr>, w')
         | (Inr (result, executionTime), w') \<Rightarrow>
             (let retailers = convertToRetailers (strings_lib w') (range_choice w') result in
              (Inr \<lparr>Retailers = retailers, Count = int (length retailers),
                    ExecutionTimeMs = executionTime, Error = []\<rparr>, w'))))"

subsection \<open>Reading the trace\<close>

text \<open>The queries sent to the backend and the calls of the executor, in the order made.\<close>

definition backend_calls :: "world \<Rightarrow> (string \<times> string list) list" where
  "backend_calls w =
     concat (map (\<lambda>e. case e of QueryContext_called q args \<Rightarrow> [(q, args)] | _ \<Rightarrow> []) (trace w))"

definition executor_calls :: "world \<Rightarrow> (string \<times> (string, string) fmap \<times> int \<times> int) list" where
  "executor_calls w =
     concat (map (\<lambda>e. case e of ExecuteQuery_called q ps l off \<Rightarrow> [(q, ps, l, off)] | _ \<Rightarrow> [])
                 (trace w))"

subsection \<open>Reading a value by its dynamic type\<close>

text \<open>
  What the type assertions \<^verbatim>\<open>value.(string)\<close> and \<^verbatim>\<open>value.(time.Time)\<close> yield for the value
  a row binds to a key, if any: nothing for an absent key, for \<^verbatim>\<open>nil\<close> and for a value of
  another type.
\<close>

definition string_of :: "val option \<Rightarrow> string option" where
  "string_of v = (case v of Some (StringV s) \<Rightarrow> Some s | _ \<Rightarrow> None)"

definition timestamp_of :: "val option \<Rightarrow> Timestamp option" where
  "timestamp_of v = (case v of Some (TimeV t) \<Rightarrow> Some (timestamppb_New t) | _ \<Rightarrow> None)"

subsection \<open>Words and phrases in a text\<close>

text \<open>
  The vocabulary of the specification for the blacklist. A word \<open>w\<close> occurs in the text \<open>s\<close>
  at the position \<open>i\<close>; the occurrence is delimited when a space or the boundary of the text
  is on each side of it; \<open>w\<close> is a whole word of \<open>s\<close> when it has a delimited occurrence, and
  is only embedded when none of its occurrences is delimited.
\<close>

definition occurs_at :: "string \<Rightarrow> string \<Rightarrow> nat \<Rightarrow> bool" where
  "occurs_at w s i \<longleftrightarrow> i + length w \<le> length s \<and> take (length w) (drop i s) = w"

definition delimited_at :: "string \<Rightarrow> string \<Rightarrow> nat \<Rightarrow> bool" where
  "delimited_at w s i \<longleftrightarrow>
     (i = 0 \<or> s ! (i - 1) = CHR '' '') \<and> (i + length w = length s \<or> s ! (i + length w) = CHR '' '')"

definition whole_word :: "string \<Rightarrow> string \<Rightarrow> bool" where
  "whole_word w s \<longleftrightarrow> (\<exists>i \<le> length s. occurs_at w s i \<and> delimited_at w s i)"

definition embedded_only :: "string \<Rightarrow> string \<Rightarrow> bool" where
  "embedded_only w s \<longleftrightarrow> (\<forall>i \<le> length s. occurs_at w s i \<longrightarrow> \<not> delimited_at w s i)"

text \<open>The blacklist without the padding: the ten words and the seven phrases.\<close>

definition blacklist_words :: "string list" where
  "blacklist_words =
     [''drop'', ''delete'', ''insert'', ''update'', ''alter'',
      ''truncate'', ''grant'', ''revoke'', ''exec'', ''execute'']"

definition blacklist_phrases :: "string list" where
  "blacklist_phrases =
     [''drop table'', ''drop database'', ''create table'', ''create database'',
      ''alter table'', ''truncate table'', ''insert into'']"

subsection \<open>A library and a backend to run the examples on\<close>

text \<open>
  The texts of the examples are made of ASCII bytes. On such a text \<^verbatim>\<open>strings.ToLower\<close> maps
  the letters \<^verbatim>\<open>A\<close> to \<^verbatim>\<open>Z\<close> to \<^verbatim>\<open>a\<close> to \<^verbatim>\<open>z\<close> and leaves the other bytes, and
  \<^verbatim>\<open>strings.TrimSpace\<close> drops tab, line feed, vertical tab, form feed, carriage return and
  space from both ends. \<open>ascii_strings\<close> holds these two functions; it stands for the library
  in the examples only, and what Go does to a text with other runes is not read off it.
\<close>

definition toLower_byte :: "char \<Rightarrow> char" where
  "toLower_byte c =
     (case map_of (zip ''ABCDEFGHIJKLMNOPQRSTUVWXYZ'' ''abcdefghijklmnopqrstuvwxyz'') c of
        Some l \<Rightarrow> l
      | None \<Rightarrow> c)"

definition ToLower_ascii :: "string \<Rightarrow> string" where
  "ToLower_ascii s = map toLower_byte s"

definition isSpace :: "char \<Rightarrow> bool" where
  "isSpace c \<longleftrightarrow> c \<in> set [CHR 0x09, CHR 0x0A, CHR 0x0B, CHR 0x0C, CHR 0x0D, CHR '' '']"

definition TrimSpace_ascii :: "string \<Rightarrow> string" where
  "TrimSpace_ascii s = rev (dropWhile isSpace (rev (dropWhile isSpace s)))"

definition ascii_strings :: strings_pkg where
  "ascii_strings = \<lparr>ToLower = ToLower_ascii, TrimSpace = TrimSpace_ascii\<rparr>"

text \<open>
  A backend that answers every query with two columns and two rows, in a runtime that
  visits the keys of a row in the order \<^verbatim>\<open>name\<close>, \<^verbatim>\<open>id\<close>.
\<close>

definition demo_rows :: sql_Rows where
  "demo_rows =
     \<lparr>rows_Columns = Inr [''id'', ''name''],
      rows_Scan = [Inr [StringV ''r1'', StringV ''Acme''], Inr [StringV ''r2'', NilV]],
      rows_Err = None\<rparr>"

definition demo_world :: world where
  "demo_world =
     \<lparr>strings_lib = ascii_strings,
      QueryContext = (\<lambda>q args. Inr demo_rows), trace = [], since_ms = 7,
      range_choice = (\<lambda>r. filter (\<lambda>k. k |\<in>| fmdom r) [''name'', ''id''])\<rparr>"

text \<open>The result of the executor on that backend, and a row as the mapper may receive it.\<close>

definition demo_result :: SQLResult where
  "demo_result =
     \<lparr>Columns = [''id'', ''name''],
      Rows = [fmupd ''name'' (StringV ''Acme'') (fmupd ''id'' (StringV ''r1'') fmempty),
              fmupd ''name'' NilV (fmupd ''id'' (StringV ''r2'') fmempty)]\<rparr>"

definition demo_row :: row where
  "demo_row =
     fmupd ''ID'' (StringV ''r1'')
       (fmupd ''NAME'' (StringV ''Acme'')
         (fmupd ''CREATED_AT'' (TimeV \<lparr>Unix = 1700000000, Nanosecond = 5\<rparr>)
           (fmupd ''extra_col'' (Int64V 5) fmempty)))"

section \<open>Properties\<close>

subsection \<open>The library functions\<close>

lemma HasPrefix_iff_prefix: "HasPrefix s pre \<longleftrightarrow> prefix pre s"
  unfolding HasPrefix_def prefix_def
  by (metis append_eq_conv_conj append_take_drop_id le_add1 length_append)

lemma Contains_iff_sublist: "Contains s substr \<longleftrightarrow> sublist substr s"
  by (induction s) (auto simp: HasPrefix_iff_prefix sublist_Cons_right)

lemmas ascii_eval =
  ascii_strings_def ToLower_ascii_def TrimSpace_ascii_def isSpace_def toLower_byte_def

lemmas string_eval = ValidateQuery_def ascii_eval HasPrefix_def dangerousKeywords_def

lemma demo_lib: "strings_lib demo_world = ascii_strings"
  by (simp add: demo_world_def)

lemma demo_delete_rejected:
  "ValidateQuery ascii_strings ''delete from retailers'' = Inl ''only SELECT queries are allowed''"
  by (simp add: string_eval)

subsection \<open>The gate of the facade\<close>

text \<open>
  Claim C8. A request with an empty query text, a negative limit or a negative offset is
  answered with an invalid-argument status, and the world is handed back as it was: the
  executor is not entered and no query is sent to the backend.
\<close>

theorem facade_rejects_before_executor:
  assumes "SqlQuery req = [] \<or> Limit req < 0 \<or> Offset req < 0"
  shows "\<exists>msg. fst (GetRetailers w req) = Inl (Status InvalidArgument msg)
               \<and> snd (GetRetailers w req) = w"
  using assms by (auto simp: GetRetailers_def)

theorem facade_rejects_before_executor_witness:
  "(SqlQuery \<lparr>SqlQuery = ''select 1'', Parameters = fmempty, Limit = - 1, Offset = 0\<rparr> = []
     \<or> Limit \<lparr>SqlQuery = ''select 1'', Parameters = fmempty, Limit = - 1, Offset = 0\<rparr> < 0
     \<or> Offset \<lparr>SqlQuery = ''select 1'', Parameters = fmempty, Limit = - 1, Offset = 0\<rparr> < 0)
   \<and> fst (GetRetailers demo_world
             \<lparr>SqlQuery = ''select 1'', Parameters = fmempty, Limit = - 1, Offset = 0\<rparr>)
       = Inl (Status InvalidArgument ''limit cannot be negative'')
   \<and> snd (GetRetailers demo_world
             \<lparr>SqlQuery = ''select 1'', Parameters = fmempty, Limit = - 1, Offset = 0\<rparr>)
       = demo_world"
  using facade_rejects_before_executor
          [of "\<lparr>SqlQuery = ''select 1'', Parameters = fmempty, Limit = - 1, Offset = 0\<rparr>" demo_world]
  by (simp add: GetRetailers_def)

text \<open>
  Claim C2. For a request that passes the gate (query text not empty, limit and offset not
  negative), when the executor, called with the limit capped at 10000, fails with the error
  \<open>err\<close>, the call is a transport-level success: the response has no retailers, count 0,
  execution time 0 and \<open>err\<close> in its error field.
\<close>

theorem executor_failure_is_embedded:
  assumes "SqlQuery req \<noteq> []" and "0 \<le> Limit req" and "0 \<le> Offset req"
    and "fst (ExecuteQuery w (SqlQuery req) (Parameters req) (min (Limit req) 10000) (Offset req))
           = Inl err"
  shows "fst (GetRetailers w req)
           = Inr \<lparr>Retailers = [], Count = 0, ExecutionTimeMs = 0, Error = err\<rparr>"
  using assms by (auto simp: GetRetailers_def Let_def min_def split: prod.splits sum.splits)

theorem executor_failure_is_embedded_witness:
  "fst (GetRetailers demo_world
         \<lparr>SqlQuery = ''delete from retailers'', Parameters = fmempty, Limit = 5, Offset = 0\<rparr>)
     = Inr \<lparr>Retailers = [], Count = 0, ExecutionTimeMs = 0,
            Error = ''invalid query: only SELECT queries are allowed''\<rparr>"
  using executor_failure_is_embedded
          [of "\<lparr>SqlQuery = ''delete from retailers'', Parameters = fmempty, Limit = 5, Offset = 0\<rparr>"
              demo_world "''invalid query: only SELECT queries are allowed''"]
  by (simp add: ExecuteQuery_def demo_lib demo_delete_rejected)

subsection \<open>The executor\<close>

text \<open>
  Claim C10. When the query text is empty or the validator rejects it, \<^verbatim>\<open>ExecuteQuery\<close>
  returns an error and the list of queries sent to the backend is what it was before.
\<close>

theorem rejected_query_never_reaches_backend:
  assumes "sqlQuery = [] \<or> ValidateQuery (strings_lib w) sqlQuery \<noteq> Inr ()"
  shows "\<exists>err. fst (ExecuteQuery w sqlQuery parameters limit offset) = Inl err
               \<and> backend_calls (snd (ExecuteQuery w sqlQuery parameters limit offset))
                   = backend_calls w"
  using assms by (auto simp: ExecuteQuery_def Let_def backend_calls_def split: sum.splits)

theorem rejected_query_never_reaches_backend_witness:
  "(''delete from retailers'' = []
      \<or> ValidateQuery (strings_lib demo_world) ''delete from retailers'' \<noteq> Inr ())
   \<and> fst (ExecuteQuery demo_world ''delete from retailers'' fmempty 0 0)
       = Inl ''invalid query: only SELECT queries are allowed''
   \<and> backend_calls (snd (ExecuteQuery demo_world ''delete from retailers'' fmempty 0 0)) = []"
  using rejected_query_never_reaches_backend [of "''delete from retailers''" demo_world fmempty 0 0]
  by (simp add: ExecuteQuery_def demo_lib demo_delete_rejected)
     (simp add: backend_calls_def demo_world_def)

lemma executor_calls_ExecuteQuery:
  "executor_calls (snd (ExecuteQuery w sqlQuery parameters limit offset))
     = executor_calls w @ [(sqlQuery, parameters, limit, offset)]"
  by (auto simp: ExecuteQuery_def Let_def executor_calls_def split: sum.splits option.splits)

lemma backend_calls_ExecuteQuery:
  assumes "sqlQuery \<noteq> []" and "ValidateQuery (strings_lib w) sqlQuery = Inr ()"
  shows "backend_calls (snd (ExecuteQuery w sqlQuery parameters limit offset))
           = backend_calls w @ [(paginate sqlQuery limit offset, bind_parameters parameters)]"
  using assms
  by (auto simp: ExecuteQuery_def Let_def backend_calls_def split: sum.splits option.splits)

lemma bind_loop_eq:
  "bind_loop ps i n args
     = args @ List.map_filter (\<lambda>j. fmlookup ps (Sprintf_d (int j))) [i..<Suc n]"
proof (induction ps i n args rule: bind_loop.induct)
  case (1 ps i n args)
  show ?case
  proof (cases "i \<le> n")
    case True
    then have upt: "[i..<Suc n] = i # [Suc i..<Suc n]"
      by (simp add: upt_conv_Cons)
    show ?thesis
      using True "1.IH" [OF True]
      by (subst bind_loop.simps) (simp add: upt List.map_filter_simps del: upt_Suc split: option.splits)
  next
    case False
    then have "[i..<Suc n] = []" by simp
    with False show ?thesis
      by (subst bind_loop.simps) (simp add: List.map_filter_simps del: upt_Suc)
  qed
qed

lemma bind_parameters_eq:
  "bind_parameters ps
     = map (\<lambda>i. the (fmlookup ps (Sprintf_d (int i))))
           (filter (\<lambda>i. Sprintf_d (int i) |\<in>| fmdom ps) [1..<Suc (fcard (fmdom ps))])"
  by (simp add: bind_parameters_def bind_loop_eq List.map_filter_def fmlookup_dom_iff comp_def)

lemma Sprintf_d_10000: "Sprintf_d 10000 = ''10000''"
  by (simp add: Sprintf_d_def decimal.simps digit_char_def)

text \<open>
  Claim C7, amended. A request with a limit above 10000 that passes the other guards (query
  text not empty, offset not negative) is not rejected: the call returns a response, it is
  the call with the limit set to 10000, the executor is entered once, with the limit 10000,
  and when the validator accepts the query the text sent to the backend is paginated with
  10000. As stated, for every request with a limit above 10000, the claim fails: the guards
  on the query text and the offset come first.
\<close>

theorem limit_is_capped:
  assumes "SqlQuery req \<noteq> []" and "0 \<le> Offset req" and "10000 < Limit req"
  shows "(\<exists>resp. fst (GetRetailers w req) = Inr resp)
       \<and> GetRetailers w req = GetRetailers w (req\<lparr>Limit := 10000\<rparr>)
       \<and> executor_calls (snd (GetRetailers w req))
           = executor_calls w @ [(SqlQuery req, Parameters req, 10000, Offset req)]
       \<and> (ValidateQuery (strings_lib w) (SqlQuery req) = Inr () \<longrightarrow>
            backend_calls (snd (GetRetailers w req))
              = backend_calls w @
                [(paginate (SqlQuery req) 10000 (Offset req), bind_parameters (Parameters req))])"
proof -
  let ?e = "ExecuteQuery w (SqlQuery req) (Parameters req) 10000 (Offset req)"
  have snd_eq: "snd (GetRetailers w req) = snd ?e"
    using assms by (simp add: GetRetailers_def Let_def split: prod.splits sum.splits)
  have "\<exists>resp. fst (GetRetailers w req) = Inr resp"
    using assms by (simp add: GetRetailers_def Let_def split: prod.splits sum.splits)
  moreover have "GetRetailers w req = GetRetailers w (req\<lparr>Limit := 10000\<rparr>)"
    using assms by (simp add: GetRetailers_def Let_def)
  moreover have "executor_calls (snd (GetRetailers w req))
           = executor_calls w @ [(SqlQuery req, Parameters req, 10000, Offset req)]"
    unfolding snd_eq by (rule executor_calls_ExecuteQuery)
  moreover have "ValidateQuery (strings_lib w) (SqlQuery req) = Inr () \<longrightarrow>
            backend_calls (snd (GetRetailers w req))
              = backend_calls w @
                [(paginate (SqlQuery req) 10000 (Offset req), bind_parameters (Parameters req))]"
    unfolding snd_eq using assms(1) by (simp add: backend_calls_ExecuteQuery)
  ultimately show ?thesis by blast
qed

text \<open>A request with limit 20000 and an empty query text is rejected, the executor not entered.\<close>

theorem limit_is_capped_counterexample:
  "10000 < Limit \<lparr>SqlQuery = [], Parameters = fmempty, Limit = 20000, Offset = 0\<rparr>
   \<and> fst (GetRetailers demo_world \<lparr>SqlQuery = [], Parameters = fmempty, Limit = 20000, Offset = 0\<rparr>)
       = Inl (Status InvalidArgument ''sql_query cannot be empty'')
   \<and> executor_calls (snd (GetRetailers demo_world
         \<lparr>SqlQuery = [], Parameters = fmempty, Limit = 20000, Offset = 0\<rparr>)) = []"
  by (simp add: GetRetailers_def executor_calls_def demo_world_def)

lemma demo_select_ok: "ValidateQuery ascii_strings ''select id, name from retailers'' = Inr ()"
  by (simp add: string_eval)

lemma bind_parameters_empty: "bind_parameters fmempty = []"
  by (simp add: bind_parameters_eq fcard_fempty)

lemma paginate_demo:
  "paginate ''select id, name from retailers'' 10000 0 = ''select id, name from retailers LIMIT 10000''"
  by (simp add: paginate_def Sprintf_d_10000)

theorem limit_is_capped_witness:
  "executor_calls (snd (GetRetailers demo_world
       \<lparr>SqlQuery = ''select id, name from retailers'', Parameters = fmempty,
        Limit = 20000, Offset = 0\<rparr>))
     = [(''select id, name from retailers'', fmempty, 10000, 0)]
   \<and> backend_calls (snd (GetRetailers demo_world
       \<lparr>SqlQuery = ''select id, name from retailers'', Parameters = fmempty,
        Limit = 20000, Offset = 0\<rparr>))
     = [(''select id, name from retailers LIMIT 10000'', [])]"
proof -
  let ?r = "\<lparr>SqlQuery = ''select id, name from retailers'', Parameters = fmempty,
             Limit = 20000, Offset = 0\<rparr>"
  have h: "SqlQuery ?r \<noteq> []" "0 \<le> Offset ?r" "10000 < Limit ?r"
    by simp_all
  have e: "executor_calls demo_world = []" and b: "backend_calls demo_world = []"
    by (simp_all add: executor_calls_def backend_calls_def demo_world_def)
  note cap = limit_is_capped [OF h, of demo_world]
  from cap have "executor_calls (snd (GetRetailers demo_world ?r))
      = executor_calls demo_world @ [(SqlQuery ?r, Parameters ?r, 10000, Offset ?r)]"
    by (elim conjE)
  moreover from cap have "ValidateQuery (strings_lib demo_world) (SqlQuery ?r) = Inr () \<longrightarrow>
      backend_calls (snd (GetRetailers demo_world ?r))
        = backend_calls demo_world @
          [(paginate (SqlQuery ?r) 10000 (Offset ?r), bind_parameters (Parameters ?r))]"
    by (elim conjE)
  ultimately show ?thesis
    by (simp only: e b demo_lib demo_select_ok bind_parameters_empty paginate_demo
          GetRetailersRequest.simps append_Nil simp_thms)
qed

text \<open>
  Claim C3. When the query passes the checks, the arguments sent to the backend are the
  values of the keys \<^verbatim>\<open>"1"\<close> to \<^verbatim>\<open>"n"\<close>, \<open>n\<close> the number of keys of the parameter map, that
  the map has, in increasing order of the index; an index the map does not have adds nothing,
  and the query is sent all the same.
\<close>

theorem positional_arguments:
  assumes "sqlQuery \<noteq> []" and "ValidateQuery (strings_lib w) sqlQuery = Inr ()"
  shows "backend_calls (snd (ExecuteQuery w sqlQuery parameters limit offset))
           = backend_calls w @
             [(paginate sqlQuery limit offset,
               map (\<lambda>i. the (fmlookup parameters (Sprintf_d (int i))))
                   (filter (\<lambda>i. Sprintf_d (int i) |\<in>| fmdom parameters)
                           [1..<Suc (fcard (fmdom parameters))]))]"
  using backend_calls_ExecuteQuery [OF assms] by (simp add: bind_parameters_eq)

lemma demo_params_card:
  "fcard (fmdom (fmupd ''1'' ''a'' (fmupd ''3'' ''c'' (fmupd ''4'' ''d'' fmempty)))) = 3"
  by (simp add: fcard_finsert_if fcard_fempty)

lemma demo_indices: "[1..<Suc 3] = [1, 2, 3]"
  by (simp add: upt_rec)

lemma demo_keys: "Sprintf_d 1 = ''1''" "Sprintf_d 2 = ''2''" "Sprintf_d 3 = ''3''"
  by (simp_all add: Sprintf_d_def decimal.simps digit_char_def)

theorem positional_arguments_witness:
  "backend_calls (snd (ExecuteQuery demo_world ''select id, name from retailers''
       (fmupd ''1'' ''a'' (fmupd ''3'' ''c'' (fmupd ''4'' ''d'' fmempty))) 0 0))
     = [(''select id, name from retailers'', [''a'', ''c''])]"
proof -
  have b: "backend_calls demo_world = []"
    by (simp add: backend_calls_def demo_world_def)
  have ne: "''select id, name from retailers'' \<noteq> []"
    by simp
  show ?thesis
    using positional_arguments [OF ne demo_select_ok [folded demo_lib], of
            
            "fmupd ''1'' ''a'' (fmupd ''3'' ''c'' (fmupd ''4'' ''d'' fmempty))" 0 0]
    unfolding demo_params_card demo_indices
    by (simp add: b demo_keys paginate_def)
qed

lemma fold_fmupd_notin:
  "k \<notin> set cs \<Longrightarrow>
   fmlookup (fold (\<lambda>(c, v) m. fmupd c v m) (zip cs vs) m0) k = fmlookup m0 k"
  by (induction cs arbitrary: vs m0) (auto simp: neq_Nil_conv split: list.splits simp: zip_Cons1)

lemma fold_fmupd_last:
  "length vs = length cs \<Longrightarrow> j < length cs \<Longrightarrow> cs ! j \<notin> set (drop (Suc j) cs) \<Longrightarrow>
   fmlookup (fold (\<lambda>(c, v) m. fmupd c v m) (zip cs vs) m0) (cs ! j) = Some (vs ! j)"
proof (induction cs arbitrary: vs m0 j)
  case Nil
  then show ?case by simp
next
  case (Cons c cs)
  then obtain v vs' where vs: "vs = v # vs'"
    by (cases vs) auto
  show ?case
  proof (cases j)
    case 0
    with Cons.prems vs show ?thesis
      by (simp add: fold_fmupd_notin)
  next
    case (Suc j')
    with Cons.prems vs Cons.IH [of vs' j' "fmupd c v m0"] show ?thesis
      by simp
  qed
qed

lemma fold_fmupd_dom:
  "length vs = length cs \<Longrightarrow>
   fmdom (fold (\<lambda>(c, v) m. fmupd c v m) (zip cs vs) m0) = fset_of_list cs |\<union>| fmdom m0"
proof (induction cs arbitrary: vs m0)
  case Nil
  then show ?case by simp
next
  case (Cons c cs)
  then obtain v vs' where vs: "vs = v # vs'"
    by (cases vs) auto
  with Cons show ?case by auto
qed

lemma make_rowMap_lookup:
  "length vs = length cs \<Longrightarrow> j < length cs \<Longrightarrow> cs ! j \<notin> set (drop (Suc j) cs) \<Longrightarrow>
   fmlookup (make_rowMap cs vs) (cs ! j) = Some (vs ! j)"
  unfolding make_rowMap_def by (rule fold_fmupd_last)

lemma make_rowMap_dom:
  "length vs = length cs \<Longrightarrow> fmdom (make_rowMap cs vs) = fset_of_list cs"
  unfolding make_rowMap_def by (simp add: fold_fmupd_dom)

lemma scan_rows_Inr:
  "scan_rows cs rs acc = Inr out \<Longrightarrow>
   \<exists>vss. rs = map Inr vss \<and> out = acc @ map (make_rowMap cs) vss
         \<and> (\<forall>vs \<in> set vss. length vs = length cs)"
proof (induction rs arbitrary: acc)
  case Nil
  then show ?case by simp
next
  case (Cons r rs)
  from Cons.prems obtain vs where r: "r = Inr vs" and len: "length vs = length cs"
    and rest: "scan_rows cs rs (acc @ [make_rowMap cs vs]) = Inr out"
    by (auto simp: Scan_def split: sum.splits if_splits)
  from Cons.IH [OF rest] obtain vss where
    "rs = map Inr vss" "out = (acc @ [make_rowMap cs vs]) @ map (make_rowMap cs) vss"
    "\<forall>vs \<in> set vss. length vs = length cs"
    by blast
  with r len have "r # rs = map Inr (vs # vss) \<and> out = acc @ map (make_rowMap cs) (vs # vss)
      \<and> (\<forall>u \<in> set (vs # vss). length u = length cs)"
    by simp
  then show ?case by (rule exI [of _ "vs # vss"])
qed

lemma ExecuteQuery_Inr:
  assumes "ExecuteQuery w sqlQuery parameters limit offset = (Inr (result, t), w')"
  shows "\<exists>rows vss.
           QueryContext w (paginate sqlQuery limit offset) (bind_parameters parameters) = Inr rows
         \<and> rows_Columns rows = Inr (Columns result)
         \<and> rows_Scan rows = map Inr vss
         \<and> Rows result = map (make_rowMap (Columns result)) vss
         \<and> (\<forall>vs \<in> set vss. length vs = length (Columns result))"
  using assms
  by (auto simp: ExecuteQuery_def Let_def split: sum.splits option.splits if_splits
           dest!: scan_rows_Inr)

subsection \<open>The rows of a result\<close>

lemma demo_ExecuteQuery:
  "fst (ExecuteQuery demo_world ''select id, name from retailers'' fmempty 0 0)
     = Inr (demo_result, 7)"
  by (simp add: ExecuteQuery_def demo_lib demo_select_ok bind_parameters_empty paginate_def)
     (simp add: demo_world_def demo_rows_def Scan_def make_rowMap_def demo_result_def Let_def)

text \<open>
  Claim C1, amended. When \<^verbatim>\<open>ExecuteQuery\<close> succeeds, the result lists the column names as the
  backend reported them, and has one row map for each row of the backend, in the backend's
  order. The keys of each row map are the column names, and a column name is bound to the
  value at its position in the row (at its last position, when the backend reports the name
  more than once). The row map itself is a Go map and has no iteration order: the order of
  the columns is carried by the list of column names only.
\<close>

theorem rows_in_backend_order:
  assumes "ExecuteQuery w sqlQuery parameters limit offset = (Inr (result, t), w')"
  shows "\<exists>rows vss.
           QueryContext w (paginate sqlQuery limit offset) (bind_parameters parameters) = Inr rows
         \<and> rows_Columns rows = Inr (Columns result)
         \<and> rows_Scan rows = map Inr vss
         \<and> length (Rows result) = length vss
         \<and> (\<forall>i < length vss.
              fmdom (Rows result ! i) = fset_of_list (Columns result)
            \<and> (\<forall>j < length (Columns result).
                  Columns result ! j \<notin> set (drop (Suc j) (Columns result)) \<longrightarrow>
                  fmlookup (Rows result ! i) (Columns result ! j) = Some (vss ! i ! j)))"
proof -
  from ExecuteQuery_Inr [OF assms] obtain rows vss where
    q: "QueryContext w (paginate sqlQuery limit offset) (bind_parameters parameters) = Inr rows"
    and c: "rows_Columns rows = Inr (Columns result)"
    and s: "rows_Scan rows = map Inr vss"
    and r: "Rows result = map (make_rowMap (Columns result)) vss"
    and l: "\<forall>vs \<in> set vss. length vs = length (Columns result)"
    by blast
  have "\<forall>i < length vss.
          fmdom (Rows result ! i) = fset_of_list (Columns result)
        \<and> (\<forall>j < length (Columns result).
              Columns result ! j \<notin> set (drop (Suc j) (Columns result)) \<longrightarrow>
              fmlookup (Rows result ! i) (Columns result ! j) = Some (vss ! i ! j))"
  proof (intro allI impI)
    fix i assume i: "i < length vss"
    with l have len: "length (vss ! i) = length (Columns result)"
      by simp
    from i r have row: "Rows result ! i = make_rowMap (Columns result) (vss ! i)"
      by simp
    show "fmdom (Rows result ! i) = fset_of_list (Columns result)
        \<and> (\<forall>j < length (Columns result).
              Columns result ! j \<notin> set (drop (Suc j) (Columns result)) \<longrightarrow>
              fmlookup (Rows result ! i) (Columns result ! j) = Some (vss ! i ! j))"
      unfolding row using len by (simp add: make_rowMap_dom make_rowMap_lookup)
  qed
  with q c s r show ?thesis
    by (intro exI [of _ rows] exI [of _ vss]) simp
qed

theorem rows_in_backend_order_witness:
  "fmlookup (Rows (fst (projr (fst (ExecuteQuery demo_world ''select id, name from retailers''
                                       fmempty 0 0)))) ! 1) ''id''
     = Some (StringV ''r2'')"
proof -
  let ?run = "ExecuteQuery demo_world ''select id, name from retailers'' fmempty 0 0"
  have run: "?run = (Inr (demo_result, 7), snd ?run)"
    using demo_ExecuteQuery by (metis prod.collapse)
  from rows_in_backend_order [OF run] obtain rows vss where
    q: "QueryContext demo_world (paginate ''select id, name from retailers'' 0 0)
          (bind_parameters fmempty) = Inr rows"
    and s: "rows_Scan rows = map Inr vss"
    and look: "\<forall>i < length vss. \<forall>j < length (Columns demo_result).
                  Columns demo_result ! j \<notin> set (drop (Suc j) (Columns demo_result)) \<longrightarrow>
                  fmlookup (Rows demo_result ! i) (Columns demo_result ! j) = Some (vss ! i ! j)"
    by blast
  from q have "rows = demo_rows"
    by (simp add: demo_world_def)
  with s have vss: "vss = [[StringV ''r1'', StringV ''Acme''], [StringV ''r2'', NilV]]"
    by (auto simp: demo_rows_def map_eq_Cons_conv)
  from look [rule_format, of 1 0] vss
  have "fmlookup (Rows demo_result ! 1) ''id'' = Some (StringV ''r2'')"
    by (simp add: demo_result_def)
  then show ?thesis
    by (simp add: demo_ExecuteQuery)
qed

text \<open>
  The backend reports the columns \<^verbatim>\<open>id\<close>, \<^verbatim>\<open>name\<close>; a \<^verbatim>\<open>range\<close> over the first row map may
  visit \<^verbatim>\<open>name\<close> before \<^verbatim>\<open>id\<close>, and the runtime of the example does.
\<close>

theorem rows_in_backend_order_counterexample:
  "fst (ExecuteQuery demo_world ''select id, name from retailers'' fmempty 0 0)
     = Inr (demo_result, 7)
   \<and> Columns demo_result = [''id'', ''name'']
   \<and> range_order (Rows demo_result ! 0) [''name'', ''id'']
   \<and> range_choice demo_world (Rows demo_result ! 0) = [''name'', ''id'']"
  by (simp add: demo_ExecuteQuery) (simp add: demo_result_def range_order_def demo_world_def)

lemma make_rowMap_duplicate_column:
  "make_rowMap [''x'', ''x''] [Int64V 1, Int64V 2] = make_rowMap [''x''] [Int64V 2]"
  by (simp add: make_rowMap_def)

subsection \<open>The mapper\<close>

lemma mapColumn_Id:
  "Id_field (mapColumn lib k v acc)
     = (if ToLower lib k = ''id'' then (case string_of (Some v) of Some s \<Rightarrow> Some s | None \<Rightarrow> Id_field acc)
        else Id_field acc)"
  by (simp add: mapColumn_def string_of_def Let_def split: val.splits)

lemma mapColumn_Name:
  "Name (mapColumn lib k v acc)
     = (if ToLower lib k = ''name'' then (case string_of (Some v) of Some s \<Rightarrow> Some s | None \<Rightarrow> Name acc)
        else Name acc)"
  by (simp add: mapColumn_def string_of_def Let_def split: val.splits)

lemma mapColumn_CreatedAt:
  "CreatedAt (mapColumn lib k v acc)
     = (if ToLower lib k = ''created_at''
        then (case timestamp_of (Some v) of Some s \<Rightarrow> Some s | None \<Rightarrow> CreatedAt acc)
        else CreatedAt acc)"
  by (simp add: mapColumn_def timestamp_of_def Let_def split: val.splits)

lemma fold_visit_field:
  fixes get :: "Retailer \<Rightarrow> 'a option" and pick :: "val option \<Rightarrow> 'a option"
  assumes step: "\<And>k v acc. get (mapColumn lib k v acc)
            = (if ToLower lib k = name then (case pick (Some v) of Some s \<Rightarrow> Some s | None \<Rightarrow> get acc)
               else get acc)"
    and none: "pick None = None"
    and only: "\<forall>k \<in> set ks. k |\<in>| fmdom r \<longrightarrow> ToLower lib k = name \<longrightarrow> k = key"
    and key: "ToLower lib key = name"
  shows "get (fold (visit lib r) ks acc)
           = (if key \<in> set ks then (case pick (fmlookup r key) of Some s \<Rightarrow> Some s | None \<Rightarrow> get acc)
              else get acc)"
  using only
proof (induction ks arbitrary: acc)
  case Nil
  then show ?case by simp
next
  case (Cons k ks)
  let ?P = "pick (fmlookup r key)"
  have one: "get (visit lib r k acc)
      = (if k = key then (case ?P of Some s \<Rightarrow> Some s | None \<Rightarrow> get acc) else get acc)"
  proof (cases "fmlookup r k")
    case None
    show ?thesis
    proof (cases "k = key")
      case True
      with None show ?thesis by (simp add: visit_def none)
    next
      case False
      with None show ?thesis by (simp add: visit_def)
    qed
  next
    case (Some v)
    then have "k |\<in>| fmdom r" by (rule fmdomI)
    with Cons.prems have imp: "ToLower lib k = name \<Longrightarrow> k = key" by simp
    have v: "get (visit lib r k acc)
        = (if ToLower lib k = name then (case pick (Some v) of Some s \<Rightarrow> Some s | None \<Rightarrow> get acc)
           else get acc)"
      using Some by (simp add: visit_def step)
    show ?thesis
    proof (cases "k = key")
      case True
      with v Some key show ?thesis by simp
    next
      case False
      with imp have "ToLower lib k \<noteq> name" by blast
      with v False show ?thesis by simp
    qed
  qed
  from Cons.prems have rest: "\<forall>k \<in> set ks. k |\<in>| fmdom r \<longrightarrow> ToLower lib k = name \<longrightarrow> k = key"
    by simp
  have ih: "get (fold (visit lib r) ks (visit lib r k acc))
      = (if key \<in> set ks then (case ?P of Some s \<Rightarrow> Some s | None \<Rightarrow> get (visit lib r k acc))
         else get (visit lib r k acc))"
    by (rule Cons.IH [OF rest])
  have "get (fold (visit lib r) (k # ks) acc)
      = (if key \<in> set ks
         then (case ?P of Some s \<Rightarrow> Some s
               | None \<Rightarrow> (if k = key then (case ?P of Some s \<Rightarrow> Some s | None \<Rightarrow> get acc)
                          else get acc))
         else (if k = key then (case ?P of Some s \<Rightarrow> Some s | None \<Rightarrow> get acc) else get acc))"
    by (simp only: fold_simps comp_apply ih one)
  then show ?case
    by (cases ?P; cases "k = key"; cases "key \<in> set ks") simp_all
qed

lemma fold_visit_whole_row:
  fixes get :: "Retailer \<Rightarrow> 'a option" and pick :: "val option \<Rightarrow> 'a option"
  assumes step: "\<And>k v acc. get (mapColumn lib k v acc)
            = (if ToLower lib k = name then (case pick (Some v) of Some s \<Rightarrow> Some s | None \<Rightarrow> get acc)
               else get acc)"
    and none: "pick None = None"
    and only: "\<forall>k. k |\<in>| fmdom r \<longrightarrow> ToLower lib k = name \<longrightarrow> k = key"
    and key: "ToLower lib key = name"
    and dom: "fset_of_list ks = fmdom r"
    and empty: "get acc = None"
  shows "get (fold (visit lib r) ks acc) = pick (fmlookup r key)"
proof -
  from only have only': "\<forall>k \<in> set ks. k |\<in>| fmdom r \<longrightarrow> ToLower lib k = name \<longrightarrow> k = key"
    by blast
  note run = fold_visit_field [OF step none only' key, where acc = acc]
  show ?thesis
  proof (cases "key \<in> set ks")
    case True
    with run empty show ?thesis
      by (cases "pick (fmlookup r key)") simp_all
  next
    case False
    with dom have "key |\<notin>| fmdom r"
      by (metis fset_of_list_elem)
    then have "fmlookup r key = None"
      by (rule fmdom_notD)
    with False run empty none show ?thesis
      by simp
  qed
qed

lemma convertRow_fold:
  "convertRow lib r ks = fold (visit lib r) ks \<lparr>Id_field = None, Name = None, CreatedAt = None\<rparr>"
  by (simp add: convertRow_def)

lemma string_of_None: "string_of None = None"
  by (simp add: string_of_def)

lemma timestamp_of_None: "timestamp_of None = None"
  by (simp add: timestamp_of_def)

text \<open>
  Claim C9. Take a row in which \<open>ki\<close>, \<open>kn\<close> and \<open>kc\<close> are names of \<^verbatim>\<open>id\<close>, \<^verbatim>\<open>name\<close> and
  \<^verbatim>\<open>created_at\<close> in some casing (\<^verbatim>\<open>strings.ToLower\<close> maps them to these three names), and no
  other key of the row is mapped by it to one of these.
  Whatever the order in which the keys are visited, the record mapped from the row has as its
  id the string bound to \<open>ki\<close>, as its name the string bound to \<open>kn\<close> and as its creation time
  the time bound to \<open>kc\<close>; a field is unset when its key is absent or bound to \<^verbatim>\<open>nil\<close> or to a
  value of another type; the other columns of the row do not show. The mapper returns one
  record for each row, and has no failing branch.
\<close>

theorem mapper_round_trip:
  assumes i: "i < length (Rows result)"
    and order: "range_order (Rows result ! i) (ord (Rows result ! i))"
    and ki: "ToLower lib ki = ''id''"
        "\<forall>k. k |\<in>| fmdom (Rows result ! i) \<longrightarrow> ToLower lib k = ''id'' \<longrightarrow> k = ki"
    and kn: "ToLower lib kn = ''name''"
        "\<forall>k. k |\<in>| fmdom (Rows result ! i) \<longrightarrow> ToLower lib k = ''name'' \<longrightarrow> k = kn"
    and kc: "ToLower lib kc = ''created_at''"
        "\<forall>k. k |\<in>| fmdom (Rows result ! i) \<longrightarrow> ToLower lib k = ''created_at'' \<longrightarrow> k = kc"
  shows "length (convertToRetailers lib ord result) = length (Rows result)
       \<and> convertToRetailers lib ord result ! i
           = \<lparr>Id_field = string_of (fmlookup (Rows result ! i) ki),
              Name = string_of (fmlookup (Rows result ! i) kn),
              CreatedAt = timestamp_of (fmlookup (Rows result ! i) kc)\<rparr>"
proof -
  let ?r = "Rows result ! i" and ?e = "\<lparr>Id_field = None, Name = None, CreatedAt = None\<rparr>"
  let ?ks = "ord ?r"
  from order have dom: "fset_of_list ?ks = fmdom ?r"
    by (simp add: range_order_def)
  have a: "Id_field (fold (visit lib ?r) ?ks ?e) = string_of (fmlookup ?r ki)"
    by (rule fold_visit_whole_row [OF mapColumn_Id string_of_None ki(2) ki(1) dom]) simp
  have b: "Name (fold (visit lib ?r) ?ks ?e) = string_of (fmlookup ?r kn)"
    by (rule fold_visit_whole_row [OF mapColumn_Name string_of_None kn(2) kn(1) dom]) simp
  have c: "CreatedAt (fold (visit lib ?r) ?ks ?e) = timestamp_of (fmlookup ?r kc)"
    by (rule fold_visit_whole_row [OF mapColumn_CreatedAt timestamp_of_None kc(2) kc(1) dom]) simp
  have "convertRow lib ?r ?ks = \<lparr>Id_field = string_of (fmlookup ?r ki), Name = string_of (fmlookup ?r kn),
          CreatedAt = timestamp_of (fmlookup ?r kc)\<rparr>"
    unfolding convertRow_fold by (rule Retailer.equality) (simp_all add: a b c)
  with i show ?thesis
    by (simp add: convertToRetailers_def)
qed

lemma ToLower_demo_keys:
  "ToLower ascii_strings ''ID'' = ''id''" "ToLower ascii_strings ''NAME'' = ''name''" "ToLower ascii_strings ''CREATED_AT'' = ''created_at''"
  "ToLower ascii_strings ''extra_col'' = ''extra_col''"
  by (simp_all add: ascii_eval)

lemma demo_row_order: "range_order demo_row [''extra_col'', ''CREATED_AT'', ''NAME'', ''ID'']"
  by (auto simp: range_order_def demo_row_def)

lemma demo_row_dom:
  "k |\<in>| fmdom demo_row \<longleftrightarrow> k = ''ID'' \<or> k = ''NAME'' \<or> k = ''CREATED_AT'' \<or> k = ''extra_col''"
  by (simp add: demo_row_def)

theorem mapper_round_trip_witness:
  "convertToRetailers ascii_strings (\<lambda>r. [''extra_col'', ''CREATED_AT'', ''NAME'', ''ID''])
       \<lparr>Columns = [''ID'', ''NAME'', ''CREATED_AT'', ''extra_col''], Rows = [demo_row]\<rparr> ! 0
     = \<lparr>Id_field = Some ''r1'', Name = Some ''Acme'',
        CreatedAt = Some \<lparr>Seconds = 1700000000, Nanos = 5\<rparr>\<rparr>"
proof -
  let ?res = "\<lparr>Columns = [''ID'', ''NAME'', ''CREATED_AT'', ''extra_col''], Rows = [demo_row]\<rparr>"
  let ?ord = "\<lambda>r :: row. [''extra_col'', ''CREATED_AT'', ''NAME'', ''ID'']"
  have row: "Rows ?res ! 0 = demo_row"
    by simp
  have i: "0 < length (Rows ?res)"
    by simp
  have order: "range_order (Rows ?res ! 0) (?ord (Rows ?res ! 0))"
    unfolding row by (rule demo_row_order)
  have ki: "\<forall>k. k |\<in>| fmdom (Rows ?res ! 0) \<longrightarrow> ToLower ascii_strings k = ''id'' \<longrightarrow> k = ''ID''"
    unfolding row demo_row_dom using ToLower_demo_keys by auto
  have kn: "\<forall>k. k |\<in>| fmdom (Rows ?res ! 0) \<longrightarrow> ToLower ascii_strings k = ''name'' \<longrightarrow> k = ''NAME''"
    unfolding row demo_row_dom using ToLower_demo_keys by auto
  have kc: "\<forall>k. k |\<in>| fmdom (Rows ?res ! 0) \<longrightarrow> ToLower ascii_strings k = ''created_at'' \<longrightarrow> k = ''CREATED_AT''"
    unfolding row demo_row_dom using ToLower_demo_keys by auto
  from mapper_round_trip [OF i order ToLower_demo_keys(1) ki ToLower_demo_keys(2) kn
         ToLower_demo_keys(3) kc]
  have "convertToRetailers ascii_strings ?ord ?res ! 0
      = \<lparr>Id_field = string_of (fmlookup (Rows ?res ! 0) ''ID''),
         Name = string_of (fmlookup (Rows ?res ! 0) ''NAME''),
         CreatedAt = timestamp_of (fmlookup (Rows ?res ! 0) ''CREATED_AT'')\<rparr>"
    by (rule conjunct2)
  also have "\<dots> = \<lparr>Id_field = Some ''r1'', Name = Some ''Acme'',
        CreatedAt = Some \<lparr>Seconds = 1700000000, Nanos = 5\<rparr>\<rparr>"
    unfolding row by (simp add: demo_row_def string_of_def timestamp_of_def timestamppb_New_def)
  finally show ?thesis .
qed

lemma mapper_wrong_type_example:
  "convertRow ascii_strings (fmupd ''id'' (Int64V 7) (fmupd ''name'' NilV fmempty)) [''name'', ''id'']
     = \<lparr>Id_field = None, Name = None, CreatedAt = None\<rparr>"
  by (simp add: convertRow_def visit_def mapColumn_def ascii_eval)

subsection \<open>The validator\<close>

lemma embedded_only_iff: "embedded_only w s \<longleftrightarrow> \<not> whole_word w s"
  by (auto simp: embedded_only_def whole_word_def)

lemma occurs_at_nth:
  "occurs_at w s i \<longleftrightarrow> i + length w \<le> length s \<and> (\<forall>m < length w. s ! (i + m) = w ! m)"
  by (auto simp: occurs_at_def list_eq_iff_nth_eq)

lemma Contains_iff_occurs: "Contains s substr \<longleftrightarrow> (\<exists>i \<le> length s. occurs_at substr s i)"
proof
  assume "Contains s substr"
  then obtain ps ss where s: "s = ps @ substr @ ss"
    by (auto simp: Contains_iff_sublist sublist_def)
  then have "occurs_at substr s (length ps)"
    by (simp add: occurs_at_def)
  moreover from s have "length ps \<le> length s"
    by simp
  ultimately show "\<exists>i \<le> length s. occurs_at substr s i"
    by blast
next
  assume "\<exists>i \<le> length s. occurs_at substr s i"
  then obtain i where i: "take (length substr) (drop i s) = substr"
    by (auto simp: occurs_at_def)
  have "s = take i s @ take (length substr) (drop i s) @ drop (length substr) (drop i s)"
    by (simp only: append_take_drop_id)
  with i have "s = take i s @ substr @ drop (length substr) (drop i s)"
    by simp
  then show "Contains s substr"
    unfolding Contains_iff_sublist sublist_def by blast
qed

lemma all_less_Suc_Suc:
  "(\<forall>k < Suc (Suc n). Q k) \<longleftrightarrow> Q 0 \<and> (\<forall>m < n. Q (Suc m)) \<and> Q (Suc n)"
proof -
  have "(\<forall>k < Suc (Suc n). Q k) \<longleftrightarrow> Q 0 \<and> (\<forall>m < Suc n. Q (Suc m))"
    by (rule All_less_Suc2)
  also have "(\<forall>m < Suc n. Q (Suc m)) \<longleftrightarrow> Q (Suc n) \<and> (\<forall>m < n. Q (Suc m))"
    by (rule All_less_Suc)
  finally show ?thesis by blast
qed

lemma padded_occurs:
  "occurs_at (CHR '' '' # w @ '' '') (CHR '' '' # s @ '' '') j
     \<longleftrightarrow> occurs_at w s j \<and> delimited_at w s j"
proof (cases "j + length w \<le> length s")
  case False
  then show ?thesis by (simp add: occurs_at_def)
next
  case True
  have left: "(CHR '' '' # s @ '' '') ! j = CHR '' '' \<longleftrightarrow> j = 0 \<or> s ! (j - 1) = CHR '' ''"
    using True by (cases j) (auto simp: nth_append)
  have mid: "(CHR '' '' # s @ '' '') ! (j + Suc m) = s ! (j + m)" if "m < length w" for m
    using True that by (simp add: nth_append)
  have right: "(CHR '' '' # s @ '' '') ! (j + Suc (length w)) = CHR '' ''
      \<longleftrightarrow> j + length w = length s \<or> s ! (j + length w) = CHR '' ''"
    using True by (auto simp: nth_append)
  have w_mid: "(CHR '' '' # w @ '' '') ! Suc m = w ! m" if "m < length w" for m
    using that by (simp add: nth_append)
  have "occurs_at (CHR '' '' # w @ '' '') (CHR '' '' # s @ '' '') j
      \<longleftrightarrow> (\<forall>k < Suc (Suc (length w)). (CHR '' '' # s @ '' '') ! (j + k) = (CHR '' '' # w @ '' '') ! k)"
    using True by (simp add: occurs_at_nth)
  also have "\<dots> \<longleftrightarrow> (CHR '' '' # s @ '' '') ! j = CHR '' ''
      \<and> (\<forall>m < length w. s ! (j + m) = w ! m)
      \<and> (CHR '' '' # s @ '' '') ! (j + Suc (length w)) = CHR '' ''"
    unfolding all_less_Suc_Suc using mid w_mid by (simp add: nth_append)
  also have "\<dots> \<longleftrightarrow> occurs_at w s j \<and> delimited_at w s j"
    unfolding left right using True by (auto simp: occurs_at_nth delimited_at_def)
  finally show ?thesis .
qed

lemma padded_Contains:
  "Contains (CHR '' '' # s @ '' '') (CHR '' '' # w @ '' '') \<longleftrightarrow> whole_word w s"
proof -
  have "Contains (CHR '' '' # s @ '' '') (CHR '' '' # w @ '' '')
      \<longleftrightarrow> (\<exists>j \<le> Suc (Suc (length s)). occurs_at w s j \<and> delimited_at w s j)"
    by (simp add: Contains_iff_occurs padded_occurs)
  also have "\<dots> \<longleftrightarrow> whole_word w s"
  proof -
    have bound: "j \<le> length s" if "occurs_at w s j" for j
      using that by (simp add: occurs_at_def)
    show ?thesis
      unfolding whole_word_def using bound by (meson le_SucI)
  qed
  finally show ?thesis .
qed

lemma unpadded_Contains:
  assumes "p \<noteq> []" and "hd p \<noteq> CHR '' ''" and "last p \<noteq> CHR '' ''"
  shows "Contains (CHR '' '' # s @ '' '') p \<longleftrightarrow> Contains s p"
proof -
  from assms have "\<not> prefix p (CHR '' '' # s @ '' '')"
    by (cases p) auto
  moreover have "\<not> suffix p (s @ '' '')"
  proof
    assume "suffix p (s @ '' '')"
    then obtain zs where "s @ '' '' = zs @ p"
      by (auto simp: suffix_def)
    with assms(1) have "last (s @ '' '') = last p"
      by simp
    with assms(3) show False
      by simp
  qed
  ultimately show ?thesis
    by (simp only: Contains_iff_sublist sublist_Cons_right sublist_snoc simp_thms)
qed

lemma dangerousKeywords_split:
  "dangerousKeywords = map (\<lambda>w. CHR '' '' # w @ '' '') blacklist_words @ blacklist_phrases"
  by (simp add: dangerousKeywords_def blacklist_words_def blacklist_phrases_def)

lemma phrase_shape:
  "p \<in> set blacklist_phrases \<Longrightarrow> p \<noteq> [] \<and> hd p \<noteq> CHR '' '' \<and> last p \<noteq> CHR '' ''"
  by (auto simp: blacklist_phrases_def)

lemma check_keywords_accepts:
  "check_keywords lib qs ks = Inr () \<longleftrightarrow> (\<forall>k \<in> set ks. \<not> Contains qs k)"
  by (induction ks) auto

lemma check_keywords_first:
  assumes "\<exists>k \<in> set ks. Contains qs k"
  shows "\<exists>i < length ks. Contains qs (ks ! i) \<and> (\<forall>j < i. \<not> Contains qs (ks ! j))
           \<and> check_keywords lib qs ks
               = Inl (''query contains forbidden keyword: '' @ TrimSpace lib (ks ! i))"
  using assms
proof (induction ks)
  case Nil
  then show ?case by simp
next
  case (Cons k ks)
  show ?case
  proof (cases "Contains qs k")
    case True
    then have "0 < length (k # ks) \<and> Contains qs ((k # ks) ! 0)
        \<and> (\<forall>j < 0. \<not> Contains qs ((k # ks) ! j))
        \<and> check_keywords lib qs (k # ks)
            = Inl (''query contains forbidden keyword: '' @ TrimSpace lib ((k # ks) ! 0))"
      by simp
    then show ?thesis by (rule exI [of _ 0])
  next
    case False
    with Cons.prems have "\<exists>k \<in> set ks. Contains qs k"
      by simp
    from Cons.IH [OF this] obtain i where i: "i < length ks" "Contains qs (ks ! i)"
      "\<forall>j < i. \<not> Contains qs (ks ! j)"
      "check_keywords lib qs ks
         = Inl (''query contains forbidden keyword: '' @ TrimSpace lib (ks ! i))"
      by blast
    have "\<forall>j < Suc i. \<not> Contains qs ((k # ks) ! j)"
      using False i(3) by (simp add: All_less_Suc2)
    with i False have "Suc i < length (k # ks) \<and> Contains qs ((k # ks) ! Suc i)
        \<and> (\<forall>j < Suc i. \<not> Contains qs ((k # ks) ! j))
        \<and> check_keywords lib qs (k # ks)
            = Inl (''query contains forbidden keyword: '' @ TrimSpace lib ((k # ks) ! Suc i))"
      by simp
    then show ?thesis by (rule exI [of _ "Suc i"])
  qed
qed

lemma whole_word_Contains: "whole_word w s \<Longrightarrow> Contains s w"
  unfolding whole_word_def Contains_iff_occurs by blast

lemma Contains_padded: "Contains s p \<Longrightarrow> Contains (CHR '' '' # s @ '' '') p"
  unfolding Contains_iff_sublist
  by (metis append_Cons sublist_append_leftI sublist_append_rightI sublist_order.order_trans
        sublist_Cons_right)

lemma whole_word_hits_blacklist:
  assumes "kw \<in> set blacklist_words \<union> set blacklist_phrases" and "whole_word kw s"
  shows "\<exists>k \<in> set dangerousKeywords. Contains (CHR '' '' # s @ '' '') k"
proof -
  from assms(1) consider "kw \<in> set blacklist_words" | "kw \<in> set blacklist_phrases"
    by blast
  then show ?thesis
  proof cases
    case 1
    then have "CHR '' '' # kw @ '' '' \<in> set dangerousKeywords"
      unfolding dangerousKeywords_split by simp
    moreover from assms(2) have "Contains (CHR '' '' # s @ '' '') (CHR '' '' # kw @ '' '')"
      by (simp only: padded_Contains)
    ultimately show ?thesis by blast
  next
    case 2
    then have "kw \<in> set dangerousKeywords"
      unfolding dangerousKeywords_split by simp
    moreover from assms(2) have "Contains (CHR '' '' # s @ '' '') kw"
      by (intro Contains_padded whole_word_Contains)
    ultimately show ?thesis by blast
  qed
qed



lemmas word_eval = embedded_only_iff padded_Contains [symmetric] HasPrefix_def



text \<open>
  Claim C4, amended. A query that begins with \<^verbatim>\<open>select\<close> once the library has trimmed and
  lower-cased it (the text the validator searches, and the text meant below), in
  which the ten blacklisted words are only embedded (no occurrence has a space or the boundary
  of the text on both sides), and in which none of the seven phrases occurs at all, is
  accepted. The padding protects the ten words only: the phrases are searched as they are,
  and a phrase that occurs across two longer identifiers is found.
\<close>

theorem embedded_keywords_are_accepted:
  assumes "HasPrefix (ToLower lib (TrimSpace lib query)) ''select''"
    and "\<forall>w \<in> set blacklist_words. embedded_only w (ToLower lib (TrimSpace lib query))"
    and "\<forall>p \<in> set blacklist_phrases. \<not> Contains (ToLower lib (TrimSpace lib query)) p"
  shows "ValidateQuery lib query = Inr ()"
proof -
  let ?q = "ToLower lib (TrimSpace lib query)"
  have "\<not> Contains (CHR '' '' # ?q @ '' '') k" if "k \<in> set dangerousKeywords" for k
  proof -
    from that consider w where "w \<in> set blacklist_words" "k = CHR '' '' # w @ '' ''"
      | "k \<in> set blacklist_phrases"
      unfolding dangerousKeywords_split by auto
    then show ?thesis
    proof cases
      case 1
      with assms(2) have "\<not> whole_word w ?q"
        by (auto simp: embedded_only_iff)
      then show ?thesis
        unfolding 1(2) padded_Contains .
    next
      case 2
      with assms(3) have "\<not> Contains ?q k"
        by blast
      moreover from phrase_shape [OF 2]
      have "k \<noteq> []" "hd k \<noteq> CHR '' ''" "last k \<noteq> CHR '' ''"
        by blast+
      ultimately show ?thesis
        using unpadded_Contains [of k ?q] by blast
    qed
  qed
  then have "check_keywords lib (CHR '' '' # ?q @ '' '') dangerousKeywords = Inr ()"
    by (simp only: check_keywords_accepts) blast
  with assms(1) show ?thesis
    by (simp add: ValidateQuery_def)
qed

lemma demo_embedded_normal:
  "ToLower ascii_strings (TrimSpace ascii_strings ''SELECT updated_at, dropped FROM backdrops'')
     = ''select updated_at, dropped from backdrops''"
  by (simp add: ascii_eval)

theorem embedded_keywords_are_accepted_witness:
  "Contains (ToLower ascii_strings
               (TrimSpace ascii_strings ''SELECT updated_at, dropped FROM backdrops'')) ''drop''
   \<and> ValidateQuery ascii_strings ''SELECT updated_at, dropped FROM backdrops'' = Inr ()"
proof -
  let ?q = "''SELECT updated_at, dropped FROM backdrops''"
  let ?n = "ToLower ascii_strings (TrimSpace ascii_strings ?q)"
  have a: "HasPrefix ?n ''select''"
    unfolding demo_embedded_normal by (simp add: HasPrefix_def)
  have b: "\<forall>w \<in> set blacklist_words. embedded_only w ?n"
    unfolding demo_embedded_normal by (simp add: blacklist_words_def word_eval)
  have c: "\<forall>p \<in> set blacklist_phrases. \<not> Contains ?n p"
    unfolding demo_embedded_normal by (simp add: blacklist_phrases_def HasPrefix_def)
  have d: "Contains ?n ''drop''"
    unfolding demo_embedded_normal by (simp add: HasPrefix_def)
  from d embedded_keywords_are_accepted [OF a b c] show ?thesis
    by (rule conjI)
qed

lemma demo_phrase_normal:
  "ToLower ascii_strings (TrimSpace ascii_strings ''select name from backdrop tables'')
     = ''select name from backdrop tables''"
  by (simp add: ascii_eval)

text \<open>
  In \<^verbatim>\<open>select name from backdrop tables\<close> no blacklisted word or phrase has a delimited
  occurrence, and the validator rejects the query for \<^verbatim>\<open>drop table\<close>.
\<close>

theorem embedded_keywords_are_accepted_counterexample:
  "HasPrefix (ToLower ascii_strings (TrimSpace ascii_strings ''select name from backdrop tables''))
     ''select''
   \<and> list_all (\<lambda>kw. embedded_only kw
                  (ToLower ascii_strings (TrimSpace ascii_strings ''select name from backdrop tables'')))
        (blacklist_words @ blacklist_phrases)
   \<and> ValidateQuery ascii_strings ''select name from backdrop tables''
       = Inl ''query contains forbidden keyword: drop table''"
proof -
  have a: "HasPrefix ''select name from backdrop tables'' ''select''"
    by (simp add: HasPrefix_def)
  have b: "list_all (\<lambda>kw. embedded_only kw ''select name from backdrop tables'')
             (blacklist_words @ blacklist_phrases)"
    by (simp add: blacklist_words_def blacklist_phrases_def word_eval)
  have c: "ValidateQuery ascii_strings ''select name from backdrop tables''
       = Inl ''query contains forbidden keyword: drop table''"
    by (simp add: string_eval)
  from a b c show ?thesis
    by (simp only: demo_phrase_normal simp_thms)
qed

text \<open>
  Claim C6, amended. A query whose text, trimmed and lower-cased by the library, has a
  blacklisted word or phrase as a whole word is rejected. When the text begins with \<^verbatim>\<open>select\<close>, the rejection reports
  the first entry of the blacklist, in its order, that occurs in the padded text; when it does
  not, the rejection is the one for a query that is not a \<^verbatim>\<open>SELECT\<close>, which names no keyword.
\<close>

theorem whole_word_keyword_is_rejected:
  assumes "kw \<in> set blacklist_words \<union> set blacklist_phrases"
    and "whole_word kw (ToLower lib (TrimSpace lib query))"
  shows "ValidateQuery lib query \<noteq> Inr ()
       \<and> (\<not> HasPrefix (ToLower lib (TrimSpace lib query)) ''select'' \<longrightarrow>
            ValidateQuery lib query = Inl ''only SELECT queries are allowed'')
       \<and> (HasPrefix (ToLower lib (TrimSpace lib query)) ''select'' \<longrightarrow>
            (\<exists>i < length dangerousKeywords.
               ValidateQuery lib query
                 = Inl (''query contains forbidden keyword: '' @ TrimSpace lib (dangerousKeywords ! i))
             \<and> Contains ('' '' @ ToLower lib (TrimSpace lib query) @ '' '') (dangerousKeywords ! i)
             \<and> (\<forall>j < i. \<not> Contains ('' '' @ ToLower lib (TrimSpace lib query) @ '' '')
                                   (dangerousKeywords ! j))))"
proof -
  let ?q = "ToLower lib (TrimSpace lib query)"
  let ?p = "'' '' @ ?q @ '' ''"
  have pad: "?p = CHR '' '' # ?q @ '' ''"
    by simp
  from whole_word_hits_blacklist [OF assms] have "\<exists>k \<in> set dangerousKeywords. Contains ?p k"
    by (simp only: pad)
  from check_keywords_first [OF this, of lib] obtain i where
    i: "i < length dangerousKeywords" "Contains ?p (dangerousKeywords ! i)"
       "\<forall>j < i. \<not> Contains ?p (dangerousKeywords ! j)"
       "check_keywords lib ?p dangerousKeywords
          = Inl (''query contains forbidden keyword: '' @ TrimSpace lib (dangerousKeywords ! i))"
    by blast
  have v: "ValidateQuery lib query
      = (if \<not> HasPrefix ?q ''select'' then Inl ''only SELECT queries are allowed''
         else check_keywords lib ?p dangerousKeywords)"
    by (simp only: ValidateQuery_def Let_def)
  have "ValidateQuery lib query \<noteq> Inr ()"
    unfolding v i(4) by simp
  moreover have "ValidateQuery lib query = Inl ''only SELECT queries are allowed''"
    if "\<not> HasPrefix ?q ''select''"
    using that unfolding v by (simp only: simp_thms if_True)
  moreover have "\<exists>i < length dangerousKeywords.
               ValidateQuery lib query
                 = Inl (''query contains forbidden keyword: '' @ TrimSpace lib (dangerousKeywords ! i))
             \<and> Contains ?p (dangerousKeywords ! i)
             \<and> (\<forall>j < i. \<not> Contains ?p (dangerousKeywords ! j))"
    if "HasPrefix ?q ''select''"
  proof -
    from that have "ValidateQuery lib query = check_keywords lib ?p dangerousKeywords"
      unfolding v by (simp only: not_True_eq_False if_False simp_thms)
    with i show ?thesis
      by (intro exI [of _ i]) (simp only: simp_thms)
  qed
  ultimately show ?thesis
    by blast
qed

lemma demo_two_keywords_normal:
  "ToLower ascii_strings (TrimSpace ascii_strings ''SELECT 1 update t drop x'')
     = ''select 1 update t drop x''"
  by (simp add: ascii_eval)

theorem whole_word_keyword_is_rejected_witness:
  "whole_word ''update'' (ToLower ascii_strings (TrimSpace ascii_strings ''SELECT 1 update t drop x''))
   \<and> ValidateQuery ascii_strings ''SELECT 1 update t drop x''
       = Inl ''query contains forbidden keyword: drop''"
proof -
  let ?query = "''SELECT 1 update t drop x''"
  let ?n = "ToLower ascii_strings (TrimSpace ascii_strings ?query)"
  let ?p = "'' '' @ ?n @ '' ''"
  have kw: "''update'' \<in> set blacklist_words \<union> set blacklist_phrases"
    by (simp add: blacklist_words_def)
  have whole: "whole_word ''update'' ?n"
    unfolding demo_two_keywords_normal by (simp add: word_eval)
  have sel: "HasPrefix ?n ''select''"
    unfolding demo_two_keywords_normal by (simp add: HasPrefix_def)
  have first: "Contains ?p (dangerousKeywords ! 0)"
    unfolding demo_two_keywords_normal by (simp add: dangerousKeywords_def HasPrefix_def)
  have trim: "TrimSpace ascii_strings (dangerousKeywords ! 0) = ''drop''"
    by (simp add: dangerousKeywords_def ascii_eval)
  from whole_word_keyword_is_rejected [OF kw whole] sel obtain i where
    v: "ValidateQuery ascii_strings ?query
          = Inl (''query contains forbidden keyword: ''
                 @ TrimSpace ascii_strings (dangerousKeywords ! i))"
    and none: "\<forall>j < i. \<not> Contains ?p (dangerousKeywords ! j)"
    by blast
  from none first have "i = 0"
    by (cases i) blast+
  with v trim have "ValidateQuery ascii_strings ?query = Inl ''query contains forbidden keyword: drop''"
    by simp
  with whole show ?thesis
    by (rule conjI)
qed

lemma demo_drop_normal:
  "ToLower ascii_strings (TrimSpace ascii_strings ''drop table t'') = ''drop table t''"
  by (simp add: ascii_eval)

text \<open>\<^verbatim>\<open>drop table t\<close> has \<^verbatim>\<open>drop\<close> as a whole word and is rejected for not being a \<^verbatim>\<open>SELECT\<close>.\<close>

theorem whole_word_keyword_is_rejected_counterexample:
  "''drop'' \<in> set blacklist_words \<union> set blacklist_phrases
   \<and> whole_word ''drop'' (ToLower ascii_strings (TrimSpace ascii_strings ''drop table t''))
   \<and> ValidateQuery ascii_strings ''drop table t'' = Inl ''only SELECT queries are allowed''"
proof -
  have a: "''drop'' \<in> set blacklist_words \<union> set blacklist_phrases"
    by (simp add: blacklist_words_def)
  have b: "whole_word ''drop'' (ToLower ascii_strings (TrimSpace ascii_strings ''drop table t''))"
    unfolding demo_drop_normal by (simp add: word_eval)
  have c: "ValidateQuery ascii_strings ''drop table t'' = Inl ''only SELECT queries are allowed''"
    by (simp add: string_eval)
  from a b c show ?thesis
    by (intro conjI)
qed

end
